theory Spec2Isabelle
  imports Main "HOL-Library.Char_ord" "HOL-Library.List_Lexorder" "HOL-Library.Multiset"
begin

section \<open>Python dictionaries\<close>

text \<open>
  A Python \<open>dict\<close> keeps its items in insertion order and has each key once. It is
  modelled as an association list; \<open>is_dict\<close> says that no key occurs twice, which
  every value built by \<open>dict_set\<close> from the empty list satisfies.
\<close>

type_synonym ('k, 'v) dict = "('k \<times> 'v) list"

definition keys :: "('k, 'v) dict \<Rightarrow> 'k set" where
  "keys d = fst ` set d"

definition is_dict :: "('k, 'v) dict \<Rightarrow> bool" where
  "is_dict d = distinct (map fst d)"

text \<open>\<^verbatim>\<open>k in d\<close>\<close>

fun dict_contains :: "'k \<Rightarrow> ('k, 'v) dict \<Rightarrow> bool" where
  "dict_contains k [] = False"
| "dict_contains k ((k', v) # d) = (if k' = k then True else dict_contains k d)"

text \<open>\<^verbatim>\<open>d.get(k)\<close>, with \<open>None\<close> for a missing key.\<close>

fun dict_get :: "('k, 'v) dict \<Rightarrow> 'k \<Rightarrow> 'v option" where
  "dict_get [] k = None"
| "dict_get ((k', v) # d) k = (if k' = k then Some v else dict_get d k)"

text \<open>
  \<^verbatim>\<open>d[k] = v\<close>: an existing key keeps its position and takes the new value, a new
  key goes to the end.
\<close>

fun dict_set :: "'k \<Rightarrow> 'v \<Rightarrow> ('k, 'v) dict \<Rightarrow> ('k, 'v) dict" where
  "dict_set k v [] = [(k, v)]"
| "dict_set k v ((k', v') # d) =
     (if k' = k then (k, v) # d else (k', v') # dict_set k v d)"

section \<open>Strings and paths\<close>

text \<open>
  Text is modelled with 8-bit characters: a \<open>string\<close> stands for a Python \<open>str\<close> whose
  code points are below 256. The two path separators and the double quote are named,
  since they cannot be written inside a string literal.
\<close>

definition slash :: char where
  "slash = CHR ''/''"

definition backslash :: char where
  "backslash = CHR 0x5C"

definition dquote :: char where
  "dquote = CHR 0x22"

definition squote :: char where
  "squote = CHR 0x27"

text \<open>\<^verbatim>\<open>s.replace(old, new)\<close> for one-character \<open>old\<close> and \<open>new\<close>.\<close>

definition str_replace :: "char \<Rightarrow> char \<Rightarrow> string \<Rightarrow> string" where
  "str_replace old new s = map (\<lambda>c. if c = old then new else c) s"

text \<open>\<^verbatim>\<open>s.startswith(p)\<close> and \<^verbatim>\<open>s.endswith(p)\<close>\<close>

definition startswith :: "string \<Rightarrow> string \<Rightarrow> bool" where
  "startswith s p = (take (length p) s = p)"

definition endswith :: "string \<Rightarrow> string \<Rightarrow> bool" where
  "endswith s p = (length p \<le> length s \<and> drop (length s - length p) s = p)"

text \<open>\<^verbatim>\<open>s.rfind(c)\<close>: the highest index of \<open>c\<close> in \<open>s\<close>, or \<open>-1\<close>.\<close>

fun rfind :: "char \<Rightarrow> string \<Rightarrow> int" where
  "rfind c [] = - 1"
| "rfind c (x # xs) =
     (if 0 \<le> rfind c xs then rfind c xs + 1 else if x = c then 0 else - 1)"

text \<open>
  \<open>os.path\<close> is \<open>posixpath\<close>, whose only separator is the forward slash:
  \<^verbatim>\<open>
  def basename(p):
      i = p.rfind('/') + 1
      return p[i:]

  def join(a, b):
      if b.startswith('/'):  path = b
      elif not a or a.endswith('/'):  path = a + b
      else:  path = a + '/' + b
      return path
  \<close>
\<close>

definition os_path_basename :: "string \<Rightarrow> string" where
  "os_path_basename p = drop (nat (rfind slash p + 1)) p"

definition os_path_join :: "string \<Rightarrow> string \<Rightarrow> string" where
  "os_path_join a b =
     (if startswith b [slash] then b
      else if a = [] \<or> endswith a [slash] then a @ b
      else a @ [slash] @ b)"

text \<open>The key under which \<open>load_completion_cache\<close> stores a raw key.\<close>

definition normalize_key :: "string \<Rightarrow> string" where
  "normalize_key key = os_path_basename (str_replace backslash slash key)"

definition has_separator :: "string \<Rightarrow> bool" where
  "has_separator k = (slash \<in> set k \<or> backslash \<in> set k)"

section \<open>JSON values and \<open>json.dump\<close>\<close>

text \<open>
  What \<open>json.load\<close> returns. A float is represented by the text that \<open>json.dump\<close>
  writes for it (its \<open>repr\<close>, or \<open>NaN\<close>, \<open>Infinity\<close>, \<open>-Infinity\<close>).
\<close>

datatype json =
    JNull
  | JBool bool
  | JInt int
  | JFloat string
  | JStr string
  | JList "json list"
  | JDict "(string \<times> json) list"

type_synonym cache = "(string, json) dict"

text \<open>The name Python prints for the type of a value.\<close>

fun type_name :: "json \<Rightarrow> string" where
  "type_name JNull = ''NoneType''"
| "type_name (JBool b) = ''bool''"
| "type_name (JInt i) = ''int''"
| "type_name (JFloat r) = ''float''"
| "type_name (JStr s) = ''str''"
| "type_name (JList xs) = ''list''"
| "type_name (JDict d) = ''dict''"

text \<open>The text of the \<open>AttributeError\<close> that \<^verbatim>\<open>raw_cache.items()\<close> raises on a non-dict.\<close>

definition no_items_error :: "json \<Rightarrow> string" where
  "no_items_error v =
     [squote] @ type_name v @ [squote] @ '' object has no attribute '' @ [squote] @ ''items'' @ [squote]"

text \<open>Decimal text of an integer.\<close>

fun nat_str :: "nat \<Rightarrow> string" where
  "nat_str n =
     (if n < 10 then [''0123456789'' ! n]
      else nat_str (n div 10) @ [''0123456789'' ! (n mod 10)])"

declare nat_str.simps [simp del]

definition int_str :: "int \<Rightarrow> string" where
  "int_str i = (if i < 0 then CHR ''-'' # nat_str (nat (- i)) else nat_str (nat i))"

text \<open>
  The string encoder of \<open>json.dump\<close> with its default \<open>ensure_ascii=True\<close>: a backslash,
  a double quote and every character outside \<open>' '..'~'\<close> is escaped.
\<close>

definition hex_digit :: "nat \<Rightarrow> char" where
  "hex_digit n = ''0123456789abcdef'' ! n"

definition escape_char :: "char \<Rightarrow> string" where
  "escape_char c =
     (if c = backslash then [backslash, backslash]
      else if c = dquote then [backslash, dquote]
      else if c = CHR 0x08 then [backslash, CHR ''b'']
      else if c = CHR 0x0C then [backslash, CHR ''f'']
      else if c = CHR 0x0A then [backslash, CHR ''n'']
      else if c = CHR 0x0D then [backslash, CHR ''r'']
      else if c = CHR 0x09 then [backslash, CHR ''t'']
      else if (of_char c :: nat) < 0x20 \<or> 0x7E < (of_char c :: nat)
        then [backslash, CHR ''u'', CHR ''0'', CHR ''0'',
              hex_digit (of_char c div 16), hex_digit (of_char c mod 16)]
      else [c])"

definition encode_basestring_ascii :: "string \<Rightarrow> string" where
  "encode_basestring_ascii s = [dquote] @ concat (map escape_char s) @ [dquote]"

text \<open>\<^verbatim>\<open>'\n' + ' ' * (2 * level)\<close>\<close>

definition newline_indent :: "nat \<Rightarrow> string" where
  "newline_indent level = CHR 0x0A # replicate (2 * level) (CHR '' '')"

text \<open>\<^verbatim>\<open>sep.join(parts)\<close>\<close>

fun join :: "string \<Rightarrow> string list \<Rightarrow> string" where
  "join sep [] = []"
| "join sep [x] = x"
| "join sep (x # y # ys) = x @ sep @ join sep (y # ys)"

text \<open>
  The text \<open>json.dump(o, f, indent=2, sort_keys=True)\<close> writes for \<open>o\<close> at nesting depth
  \<open>level\<close>. An empty list or dict is written without a line break; the items of a dict
  are written in the order of \<open>sorted(d.items())\<close>, which for the distinct keys of a dict
  is the order of the keys.
\<close>

fun encode :: "nat \<Rightarrow> json \<Rightarrow> string" where
  "encode level JNull = ''null''"
| "encode level (JBool b) = (if b then ''true'' else ''false'')"
| "encode level (JInt i) = int_str i"
| "encode level (JFloat r) = r"
| "encode level (JStr s) = encode_basestring_ascii s"
| "encode level (JList xs) =
     (if xs = [] then ''[]''
      else ''['' @ newline_indent (level + 1)
        @ join (CHR '','' # newline_indent (level + 1)) (map (encode (level + 1)) xs)
        @ newline_indent level @ '']'')"
| "encode level (JDict d) =
     (if d = [] then ''{}''
      else ''{'' @ newline_indent (level + 1)
        @ join (CHR '','' # newline_indent (level + 1))
            (map (\<lambda>(key, value). encode_basestring_ascii key @ '': '' @ encode (level + 1) value)
               (sort_key fst d))
        @ newline_indent level @ ''}'')"

definition json_dump :: "cache \<Rightarrow> string" where
  "json_dump cache = encode 0 (JDict cache)"

section \<open>The environment and the effects of a run\<close>

text \<open>
  One constructor for each \<open>print\<close> of the script, with the values it formats.
  \<open>Rule\<close> is \<^verbatim>\<open>"=" * 70\<close> and \<open>Newline_rule\<close> is \<^verbatim>\<open>"\n" + "=" * 70\<close>.
\<close>

datatype msg =
    Warning_could_not_load string
  | Cache_saved_to string
  | Error_saving_cache string
  | Error_output_directory_does_not_exist string
  | Error_scanning_output_directory string
  | Scanning_job_directories int
  | Found string string
  | Found_completed_jobs int
  | Usage
  | Example_header
  | Example
  | Rule
  | Newline_rule
  | Title
  | Output_directory string
  | Loading_and_cleaning
  | Loaded_and_normalized int
  | All_full_paths_converted
  | No_new_completed_jobs
  | Saving_cleaned_cache
  | Cache_cleanup_complete
  | Nothing_to_update
  | Merging_with_existing_cache
  | New_entries_added int
  | Already_in_cache int
  | Total_entries_in_cache int
  | Saving_updated_cache
  | Migration_complete
  | Summary
  | Jobs_scanned int
  | New_jobs_added_to_cache int
  | Total_jobs_in_cache int
  | All_entries_are_basenames
  | Safe_to_use_notebook

text \<open>
  What a run does to the outside: a line printed, a file written in full
  (\<open>open(path, 'w')\<close> and \<open>json.dump\<close> both completed), or a write that raised
  (the file may be untouched, truncated or partly written).
\<close>

datatype event =
    Print msg
  | Write string string
  | Write_failed string

fun is_write :: "event \<Rightarrow> bool" where
  "is_write (Print m) = False"
| "is_write (Write path text) = True"
| "is_write (Write_failed path) = True"

definition writes :: "event list \<Rightarrow> event list" where
  "writes out = filter is_write out"

text \<open>A call either returns a value or leaves through \<open>sys.exit(code)\<close>.\<close>

datatype 'a result = Exit int | Return 'a

type_synonym 'a io = "'a result \<times> event list"

text \<open>
  An entry of \<open>os.scandir\<close>: its name and what \<open>is_dir()\<close> answers. Its \<open>path\<close> is
  the scanned directory joined with the name.
\<close>

record dir_entry =
  entry_name :: string
  entry_is_dir :: bool

text \<open>
  The file system as the script reads it. A call that can raise answers \<open>Inl\<close> with the
  text of the exception:
  \<^item> \<open>path_exists\<close>: \<open>os.path.exists\<close>;
  \<^item> \<open>load_json\<close>: \<open>open(path, 'r')\<close> followed by \<open>json.load\<close>;
  \<^item> \<open>scandir\<close>: iterating \<open>os.scandir(path)\<close> and asking each entry \<open>is_dir()\<close>;
  \<^item> \<open>glob\<close>: \<open>glob.glob(pattern)\<close>;
  \<^item> \<open>dump_error\<close>: the exception, if any, that \<open>open(path, 'w')\<close> followed by
    \<open>json.dump\<close> raises.
\<close>

record filesystem =
  path_exists :: "string \<Rightarrow> bool"
  load_json :: "string \<Rightarrow> string + json"
  scandir :: "string \<Rightarrow> string + dir_entry list"
  glob :: "string \<Rightarrow> string list"
  dump_error :: "string \<Rightarrow> string option"

section \<open>\<open>load_completion_cache\<close>\<close>

text \<open>
  \<^verbatim>\<open>
  normalized_cache = {}
  for key, value in raw_cache.items():
      basename = os.path.basename(key.replace('\\', '/'))
      normalized_cache[basename] = value
  return normalized_cache
  \<close>
\<close>

fun normalize_loop :: "(string, 'v) dict \<Rightarrow> (string, 'v) dict \<Rightarrow> (string, 'v) dict" where
  "normalize_loop normalized_cache [] = normalized_cache"
| "normalize_loop normalized_cache ((key, value) # items) =
     (let basename = os_path_basename (str_replace backslash slash key)
      in normalize_loop (dict_set basename value normalized_cache) items)"

definition cache_file_of :: "string \<Rightarrow> string" where
  "cache_file_of output_dir = os_path_join output_dir ''.completion_cache.json''"

text \<open>
  Every exception of the \<open>try\<close> block is caught: one raised by \<open>open\<close> or \<open>json.load\<close>,
  and the \<open>AttributeError\<close> of \<open>.items()\<close> when the file holds JSON that is not an object.
\<close>

definition load_completion_cache :: "filesystem \<Rightarrow> string \<Rightarrow> cache io" where
  "load_completion_cache fs output_dir =
     (let cache_file = cache_file_of output_dir in
      if path_exists fs cache_file then
        (case load_json fs cache_file of
           Inl e \<Rightarrow> (Return [], [Print (Warning_could_not_load e)])
         | Inr (JDict raw_cache) \<Rightarrow> (Return (normalize_loop [] raw_cache), [])
         | Inr v \<Rightarrow> (Return [], [Print (Warning_could_not_load (no_items_error v))]))
      else (Return [], []))"

section \<open>\<open>save_completion_cache\<close>\<close>

definition save_completion_cache :: "filesystem \<Rightarrow> string \<Rightarrow> cache \<Rightarrow> unit io" where
  "save_completion_cache fs output_dir cache =
     (let cache_file = cache_file_of output_dir in
      case dump_error fs cache_file of
        None \<Rightarrow> (Return (), [Write cache_file (json_dump cache), Print (Cache_saved_to cache_file)])
      | Some e \<Rightarrow> (Exit 1, [Write_failed cache_file, Print (Error_saving_cache e)]))"

section \<open>\<open>find_completed_jobs\<close>\<close>

text \<open>
  \<^verbatim>\<open>
  for entry in subdirs:
      job_dir = entry.path
      jobname = entry.name
      done_files = glob.glob(os.path.join(job_dir, '*.done.txt'))
      if done_files:
          completed_jobs[jobname] = True
          found_count += 1
          done_file_name = os.path.basename(done_files[0])
          print(...)
  \<close>
\<close>

fun scan_loop ::
  "filesystem \<Rightarrow> string \<Rightarrow> dir_entry list \<Rightarrow> cache \<Rightarrow> int \<Rightarrow> event list
     \<Rightarrow> cache \<times> int \<times> event list"
where
  "scan_loop fs output_dir [] completed_jobs found_count out = (completed_jobs, found_count, out)"
| "scan_loop fs output_dir (entry # subdirs) completed_jobs found_count out =
     (let job_dir = os_path_join output_dir (entry_name entry);
          jobname = entry_name entry
      in case glob fs (os_path_join job_dir ''*.done.txt'') of
           [] \<Rightarrow> scan_loop fs output_dir subdirs completed_jobs found_count out
         | done_file # _ \<Rightarrow>
             scan_loop fs output_dir subdirs
               (dict_set jobname (JBool True) completed_jobs)
               (found_count + 1)
               (out @ [Print (Found jobname (os_path_basename done_file))]))"

definition find_completed_jobs :: "filesystem \<Rightarrow> string \<Rightarrow> cache io" where
  "find_completed_jobs fs output_dir =
     (if \<not> path_exists fs output_dir
      then (Exit 1, [Print (Error_output_directory_does_not_exist output_dir)])
      else case scandir fs output_dir of
        Inl e \<Rightarrow> (Exit 1, [Print (Error_scanning_output_directory e)])
      | Inr entries \<Rightarrow>
          (let subdirs = filter (\<lambda>entry. entry_is_dir entry \<and> \<not> startswith (entry_name entry) ''.'') entries
           in case scan_loop fs output_dir subdirs [] 0
                     [Print (Scanning_job_directories (int (length subdirs)))] of
                (completed_jobs, found_count, out) \<Rightarrow>
                  (Return completed_jobs, out @ [Print (Found_completed_jobs found_count)])))"

section \<open>\<open>merge_caches\<close>\<close>

text \<open>
  \<^verbatim>\<open>
  merged = existing_cache.copy()
  added = 0
  already_exists = 0
  for jobname, status in new_entries.items():
      if jobname in merged:
          already_exists += 1
      else:
          merged[jobname] = status
          added += 1
  return merged, added, already_exists
  \<close>
  The loop is a recursion over the items of \<open>new_entries\<close> that carries the three
  variables of the loop body.
\<close>

fun merge_loop ::
  "(string, 'v) dict \<Rightarrow> int \<Rightarrow> int \<Rightarrow> (string, 'v) dict \<Rightarrow> (string, 'v) dict \<times> int \<times> int"
where
  "merge_loop merged added already_exists [] = (merged, added, already_exists)"
| "merge_loop merged added already_exists ((jobname, status) # items) =
     (if dict_contains jobname merged
      then merge_loop merged added (already_exists + 1) items
      else merge_loop (dict_set jobname status merged) (added + 1) already_exists items)"

definition merge_caches ::
  "(string, 'v) dict \<Rightarrow> (string, 'v) dict \<Rightarrow> (string, 'v) dict \<times> int \<times> int"
where
  "merge_caches existing_cache new_entries = merge_loop existing_cache 0 0 new_entries"

section \<open>\<open>main\<close>\<close>

text \<open>
  \<open>argv\<close> is \<open>sys.argv\<close>, the script's own name first. The result is the exit status of
  the process (0 when \<open>main\<close> returns) and everything the run did, in order.
\<close>

definition main :: "filesystem \<Rightarrow> string list \<Rightarrow> int \<times> event list" where
  "main fs argv =
     (if length argv \<noteq> 2 then (1, [Print Usage, Print Example_header, Print Example])
      else
        let output_dir = argv ! 1;
            out0 = [Print Rule, Print Title, Print Rule, Print (Output_directory output_dir),
                    Print Loading_and_cleaning]
        in case load_completion_cache fs output_dir of
          (Exit code, out1) \<Rightarrow> (code, out0 @ out1)
        | (Return existing_cache, out1) \<Rightarrow>
            let out2 = out0 @ out1 @
                  [Print (Loaded_and_normalized (int (length existing_cache))),
                   Print All_full_paths_converted, Print Rule]
            in case find_completed_jobs fs output_dir of
              (Exit code, out3) \<Rightarrow> (code, out2 @ out3)
            | (Return completed_jobs, out3) \<Rightarrow>
                if completed_jobs = [] then
                  (if existing_cache \<noteq> [] then
                     (case save_completion_cache fs output_dir existing_cache of
                        (Exit code, out4) \<Rightarrow>
                          (code, out2 @ out3 @ [Print No_new_completed_jobs, Print Saving_cleaned_cache] @ out4)
                      | (Return _, out4) \<Rightarrow>
                          (0, out2 @ out3 @ [Print No_new_completed_jobs, Print Saving_cleaned_cache] @ out4
                                @ [Print Cache_cleanup_complete]))
                   else (0, out2 @ out3 @ [Print No_new_completed_jobs, Print Nothing_to_update]))
                else
                  (case merge_caches existing_cache completed_jobs of
                     (merged_cache, added, already_exists) \<Rightarrow>
                       let out4 = out2 @ out3 @
                             [Print Newline_rule, Print Merging_with_existing_cache,
                              Print (New_entries_added added),
                              Print (Already_in_cache already_exists),
                              Print (Total_entries_in_cache (int (length merged_cache))),
                              Print Newline_rule, Print Saving_updated_cache]
                       in case save_completion_cache fs output_dir merged_cache of
                            (Exit code, out5) \<Rightarrow> (code, out4 @ out5)
                          | (Return _, out5) \<Rightarrow>
                              (0, out4 @ out5 @
                                 [Print Newline_rule, Print Migration_complete, Print Rule, Print Summary,
                                  Print (Jobs_scanned (int (length completed_jobs))),
                                  Print (New_jobs_added_to_cache added),
                                  Print (Total_jobs_in_cache (int (length merged_cache))),
                                  Print All_entries_are_basenames,
                                  Print Safe_to_use_notebook])))"

section \<open>Example environments\<close>

text \<open>
  Output directories \<open>out\<close> in several states, on which the properties below are
  evaluated:
  \<^item> \<open>fs_paths\<close>: a cache file whose keys are paths, two of them for the same job and
    one ending in a separator;
  \<^item> \<open>fs_absent\<close>: no cache file and no job directory;
  \<^item> \<open>fs_corrupt\<close>: a cache file that \<open>json.load\<close> rejects;
  \<^item> \<open>fs_scenario_B\<close>: a cache file with one path-qualified key, no job directory;
  \<^item> \<open>fs_scenario_D\<close>: the output directory does not exist;
  \<^item> \<open>fs_unlistable\<close>: the output directory exists and \<open>os.scandir\<close> raises.
\<close>

definition fs_paths :: filesystem where
  "fs_paths =
     \<lparr> path_exists = (\<lambda>p. p = ''out'' \<or> p = ''out/.completion_cache.json''),
       load_json = (\<lambda>p. Inr (JDict
         [(''/old/path/jobA'', JBool False),
          ([CHR ''C'', CHR '':'', backslash, CHR ''r'', backslash] @ ''jobA'', JBool True),
          (''runs/jobB/'', JInt 7)])),
       scandir = (\<lambda>p. Inr []),
       glob = (\<lambda>p. []),
       dump_error = (\<lambda>p. None) \<rparr>"

definition fs_absent :: filesystem where
  "fs_absent =
     \<lparr> path_exists = (\<lambda>p. p = ''out''),
       load_json = (\<lambda>p. Inl ''No such file''),
       scandir = (\<lambda>p. Inr []),
       glob = (\<lambda>p. []),
       dump_error = (\<lambda>p. None) \<rparr>"

definition fs_corrupt :: filesystem where
  "fs_corrupt =
     \<lparr> path_exists = (\<lambda>p. p = ''out'' \<or> p = ''out/.completion_cache.json''),
       load_json = (\<lambda>p. Inl ''Expecting value: line 1 column 1 (char 0)''),
       scandir = (\<lambda>p. Inr []),
       glob = (\<lambda>p. []),
       dump_error = (\<lambda>p. None) \<rparr>"

definition fs_scenario_B :: filesystem where
  "fs_scenario_B =
     \<lparr> path_exists = (\<lambda>p. p = ''out'' \<or> p = ''out/.completion_cache.json''),
       load_json = (\<lambda>p. Inr (JDict [(''/old/path/jobA'', JBool True)])),
       scandir = (\<lambda>p. Inr [\<lparr> entry_name = ''.completion_cache.json'', entry_is_dir = False \<rparr>]),
       glob = (\<lambda>p. []),
       dump_error = (\<lambda>p. None) \<rparr>"

definition fs_scenario_D :: filesystem where
  "fs_scenario_D =
     \<lparr> path_exists = (\<lambda>p. False),
       load_json = (\<lambda>p. Inl ''No such file or directory''),
       scandir = (\<lambda>p. Inl ''No such file or directory''),
       glob = (\<lambda>p. []),
       dump_error = (\<lambda>p. Some ''No such file or directory'') \<rparr>"

definition fs_unlistable :: filesystem where
  "fs_unlistable =
     \<lparr> path_exists = (\<lambda>p. p = ''out''),
       load_json = (\<lambda>p. Inl ''No such file or directory''),
       scandir = (\<lambda>p. Inl ''Permission denied''),
       glob = (\<lambda>p. []),
       dump_error = (\<lambda>p. None) \<rparr>"

definition argv_out :: "string list" where
  "argv_out = [''migrate_done_to_cache.py'', ''out'']"

section \<open>Facts about dictionaries\<close>

lemma dict_contains_keys: "dict_contains k d = (k \<in> keys d)"
  by (induction d) (auto simp: keys_def)

lemma keys_Nil: "keys [] = {}"
  by (simp add: keys_def)

lemma keys_Cons: "keys ((k, v) # d) = insert k (keys d)"
  by (simp add: keys_def)

lemma dict_get_None_iff: "(dict_get d k = None) = (k \<notin> keys d)"
proof (induction d)
  case Nil
  show ?case by (simp add: keys_Nil)
next
  case (Cons p d)
  obtain k' v' where p: "p = (k', v')" by (cases p)
  from Cons.IH show ?case by (auto simp: p keys_Cons)
qed

lemma keys_dict_set: "keys (dict_set k v d) = insert k (keys d)"
proof (induction d)
  case Nil
  show ?case by (simp add: keys_Nil keys_Cons)
next
  case (Cons p d)
  obtain k' v' where p: "p = (k', v')" by (cases p)
  from Cons.IH show ?case by (auto simp: p keys_Cons)
qed

lemma dict_get_dict_set:
  "dict_get (dict_set k v d) k' = (if k' = k then Some v else dict_get d k')"
  by (induction d) auto

lemma is_dict_dict_set: "is_dict d \<Longrightarrow> is_dict (dict_set k v d)"
proof (induction d)
  case Nil
  show ?case by (simp add: is_dict_def)
next
  case (Cons p d)
  obtain k' v' where p: "p = (k', v')" by (cases p)
  from Cons.prems have tl: "is_dict d" and fresh: "k' \<notin> keys d"
    by (auto simp: is_dict_def keys_def p)
  show ?case
  proof (cases "k' = k")
    case True
    with Cons.prems show ?thesis by (simp add: is_dict_def p)
  next
    case False
    have "is_dict (dict_set k v d)" using Cons.IH tl .
    moreover have "k' \<notin> keys (dict_set k v d)"
      using fresh False by (simp add: keys_dict_set)
    ultimately show ?thesis
      using False by (simp add: is_dict_def keys_def p)
  qed
qed

lemma is_dict_card_keys: "is_dict d \<Longrightarrow> card (keys d) = length d"
  unfolding is_dict_def keys_def
  by (metis distinct_card length_map set_map)

lemma dict_get_mem: "is_dict d \<Longrightarrow> (dict_get d k = Some v) = ((k, v) \<in> set d)"
proof (induction d)
  case Nil
  show ?case by simp
next
  case (Cons p d)
  obtain k' v' where p: "p = (k', v')" by (cases p)
  from Cons.prems have tl: "is_dict d" and fresh: "k' \<notin> keys d"
    by (auto simp: is_dict_def keys_def p)
  from fresh have "(k', v) \<notin> set d"
    by (auto simp: keys_def intro: rev_image_eqI)
  with Cons.IH [OF tl] show ?case by (auto simp: p)
qed

lemma same_content_same_items:
  assumes "is_dict c1" and "is_dict c2" and "\<forall>k. dict_get c1 k = dict_get c2 k"
  shows "set c1 = set c2"
proof -
  have "(p \<in> set c1) = (p \<in> set c2)" for p
  proof (cases p)
    case (Pair k v)
    then show ?thesis
      using assms dict_get_mem [of c1 k v] dict_get_mem [of c2 k v] by simp
  qed
  then show ?thesis by blast
qed

section \<open>Facts about the merge loop\<close>

lemma merge_loop_keys:
  "merge_loop m a p items = (m', a', p') \<Longrightarrow> keys m' = keys m \<union> keys items"
proof (induction items arbitrary: m a p)
  case Nil
  then show ?case by (simp add: keys_Nil)
next
  case (Cons it items)
  obtain j s where it: "it = (j, s)" by (cases it)
  show ?case
  proof (cases "dict_contains j m")
    case True
    with Cons.prems it have "merge_loop m a (p + 1) items = (m', a', p')" by simp
    from Cons.IH [OF this] True show ?thesis
      by (auto simp: it keys_Cons dict_contains_keys)
  next
    case False
    with Cons.prems it
    have "merge_loop (dict_set j s m) (a + 1) p items = (m', a', p')" by simp
    from Cons.IH [OF this] show ?thesis
      by (auto simp: it keys_Cons keys_dict_set)
  qed
qed

lemma merge_loop_keeps:
  "merge_loop m a p items = (m', a', p') \<Longrightarrow> dict_get m k = Some v \<Longrightarrow> dict_get m' k = Some v"
proof (induction items arbitrary: m a p)
  case Nil
  then show ?case by simp
next
  case (Cons it items)
  obtain j s where it: "it = (j, s)" by (cases it)
  show ?case
  proof (cases "dict_contains j m")
    case True
    with Cons.prems it have "merge_loop m a (p + 1) items = (m', a', p')" by simp
    from Cons.IH [OF this Cons.prems(2)] show ?thesis .
  next
    case False
    with Cons.prems it
    have run: "merge_loop (dict_set j s m) (a + 1) p items = (m', a', p')" by simp
    from False Cons.prems(2) have "k \<noteq> j"
      by (auto simp: dict_contains_keys dict_get_None_iff [symmetric])
    with Cons.prems(2) have "dict_get (dict_set j s m) k = Some v"
      by (simp add: dict_get_dict_set)
    from Cons.IH [OF run this] show ?thesis .
  qed
qed

lemma merge_loop_new:
  "merge_loop m a p items = (m', a', p') \<Longrightarrow> k \<notin> keys m \<Longrightarrow> dict_get m' k = dict_get items k"
proof (induction items arbitrary: m a p)
  case Nil
  then show ?case by (simp add: dict_get_None_iff)
next
  case (Cons it items)
  obtain j s where it: "it = (j, s)" by (cases it)
  show ?case
  proof (cases "dict_contains j m")
    case True
    with Cons.prems it have "merge_loop m a (p + 1) items = (m', a', p')" by simp
    from Cons.IH [OF this Cons.prems(2)] True Cons.prems(2) show ?thesis
      by (auto simp: it dict_contains_keys)
  next
    case False
    with Cons.prems it
    have run: "merge_loop (dict_set j s m) (a + 1) p items = (m', a', p')" by simp
    show ?thesis
    proof (cases "k = j")
      case True
      have "dict_get (dict_set j s m) j = Some s" by (simp add: dict_get_dict_set)
      from merge_loop_keeps [OF run this] True show ?thesis by (simp add: it)
    next
      case False
      with Cons.prems(2) have "k \<notin> keys (dict_set j s m)" by (simp add: keys_dict_set)
      from Cons.IH [OF run this] False show ?thesis by (simp add: it)
    qed
  qed
qed

lemma merge_loop_count:
  "merge_loop m a p items = (m', a', p') \<Longrightarrow> a' + p' = a + p + int (length items)"
proof (induction items arbitrary: m a p)
  case Nil
  then show ?case by simp
next
  case (Cons it items)
  obtain j s where it: "it = (j, s)" by (cases it)
  show ?case
  proof (cases "dict_contains j m")
    case True
    with Cons.prems it have "merge_loop m a (p + 1) items = (m', a', p')" by simp
    from Cons.IH [OF this] show ?thesis by simp
  next
    case False
    with Cons.prems it
    have "merge_loop (dict_set j s m) (a + 1) p items = (m', a', p')" by simp
    from Cons.IH [OF this] show ?thesis by simp
  qed
qed

lemma merge_loop_present:
  "keys items \<subseteq> keys m \<Longrightarrow> merge_loop m a p items = (m, a, p + int (length items))"
proof (induction items arbitrary: p)
  case Nil
  show ?case by simp
next
  case (Cons it items)
  obtain j s where it: "it = (j, s)" by (cases it)
  from Cons.prems have here: "dict_contains j m" and rest: "keys items \<subseteq> keys m"
    by (auto simp: it keys_Cons dict_contains_keys)
  from Cons.IH [OF rest, of "p + 1"] here show ?case by (simp add: it)
qed

lemma merge_caches_Nil: "merge_caches existing [] = (existing, 0, 0)"
  by (simp add: merge_caches_def)

section \<open>Facts about paths and key normalization\<close>

lemma rfind_absent: "c \<notin> set s \<Longrightarrow> rfind c s = - 1"
  by (induction s) auto

lemma rfind_last: "c \<notin> set b \<Longrightarrow> rfind c (a @ c # b) = int (length a)"
  by (induction a) (auto simp: rfind_absent)

lemma basename_no_slash: "slash \<notin> set p \<Longrightarrow> os_path_basename p = p"
  by (simp add: os_path_basename_def rfind_absent)

lemma basename_after_last_slash:
  "slash \<notin> set b \<Longrightarrow> os_path_basename (a @ slash # b) = b"
proof -
  assume "slash \<notin> set b"
  then have "rfind slash (a @ slash # b) = int (length a)" by (rule rfind_last)
  then have "nat (rfind slash (a @ slash # b) + 1) = Suc (length a)" by simp
  then show ?thesis by (simp add: os_path_basename_def)
qed

lemma basename_has_no_slash: "slash \<notin> set (os_path_basename p)"
proof (cases "slash \<in> set p")
  case True
  then obtain a b where "p = a @ slash # b" and "slash \<notin> set b"
    by (auto dest: split_list_last)
  then show ?thesis by (simp add: basename_after_last_slash)
next
  case False
  then show ?thesis by (simp add: basename_no_slash)
qed

lemma basename_subset: "set (os_path_basename p) \<subseteq> set p"
  unfolding os_path_basename_def by (rule set_drop_subset)

lemma replace_no_backslash: "backslash \<notin> set (str_replace backslash slash k)"
  by (auto simp: str_replace_def slash_def backslash_def)

lemma normalize_key_clean: "\<not> has_separator (normalize_key k)"
  unfolding has_separator_def normalize_key_def
  using basename_has_no_slash basename_subset replace_no_backslash by blast

lemma basename_trailing_slash: "os_path_basename (a @ [slash]) = []"
  using basename_after_last_slash [of "[]" a] by simp

lemma normalize_key_trailing:
  "k \<noteq> [] \<Longrightarrow> last k = slash \<or> last k = backslash \<Longrightarrow> normalize_key k = []"
proof -
  assume ne: "k \<noteq> []" and l: "last k = slash \<or> last k = backslash"
  then have "str_replace backslash slash k = str_replace backslash slash (butlast k) @ [slash]"
    by (cases k rule: rev_cases) (auto simp: str_replace_def)
  then show ?thesis by (simp add: normalize_key_def basename_trailing_slash)
qed

lemma normalize_key_after_separator:
  "c = slash \<or> c = backslash \<Longrightarrow> \<not> has_separator b \<Longrightarrow> normalize_key (a @ c # b) = b"
proof -
  assume c: "c = slash \<or> c = backslash" and b: "\<not> has_separator b"
  from b have "str_replace backslash slash b = b"
    by (auto simp: str_replace_def has_separator_def intro!: map_idI)
  with c have "str_replace backslash slash (a @ c # b) = str_replace backslash slash a @ slash # b"
    by (auto simp: str_replace_def)
  with b show ?thesis
    by (simp add: normalize_key_def has_separator_def basename_after_last_slash)
qed

lemma normalize_loop_keys:
  "keys (normalize_loop acc items) = keys acc \<union> normalize_key ` keys items"
proof (induction items arbitrary: acc)
  case Nil
  show ?case by (simp add: keys_Nil)
next
  case (Cons it items)
  obtain k v where it: "it = (k, v)" by (cases it)
  show ?case
    by (simp add: it Cons.IH keys_dict_set keys_Cons normalize_key_def)
qed

lemma normalize_loop_keeps:
  "dict_get acc b = Some v \<Longrightarrow> b \<notin> normalize_key ` keys items \<Longrightarrow>
     dict_get (normalize_loop acc items) b = Some v"
proof (induction items arbitrary: acc)
  case Nil
  then show ?case by simp
next
  case (Cons it items)
  obtain k w where it: "it = (k, w)" by (cases it)
  from Cons.prems(2) have ne: "b \<noteq> normalize_key k" and rest: "b \<notin> normalize_key ` keys items"
    by (auto simp: it keys_Cons)
  from Cons.prems(1) ne have "dict_get (dict_set (normalize_key k) w acc) b = Some v"
    by (simp add: dict_get_dict_set)
  from Cons.IH [OF this rest] show ?case
    by (simp add: it normalize_key_def)
qed

lemma normalize_loop_last:
  "normalize_key k \<notin> normalize_key ` keys post \<Longrightarrow>
     dict_get (normalize_loop acc (pre @ (k, v) # post)) (normalize_key k) = Some v"
proof (induction pre arbitrary: acc)
  case Nil
  have "dict_get (dict_set (normalize_key k) v acc) (normalize_key k) = Some v"
    by (simp add: dict_get_dict_set)
  from normalize_loop_keeps [OF this Nil] show ?case
    by (simp add: normalize_key_def)
next
  case (Cons it pre)
  obtain k' w where it: "it = (k', w)" by (cases it)
  from Cons.IH [OF Cons.prems] show ?case by (simp add: it)
qed

section \<open>Facts about loading\<close>

lemma load_dict:
  "path_exists fs (cache_file_of output_dir) \<Longrightarrow>
   load_json fs (cache_file_of output_dir) = Inr (JDict raw) \<Longrightarrow>
   load_completion_cache fs output_dir = (Return (normalize_loop [] raw), [])"
  by (simp add: load_completion_cache_def)

lemma load_keys_clean:
  "load_completion_cache fs output_dir = (r, out) \<Longrightarrow> r = Return cache \<Longrightarrow> k \<in> keys cache \<Longrightarrow>
     \<not> has_separator k"
  by (auto simp: load_completion_cache_def Let_def normalize_loop_keys keys_Nil normalize_key_clean
      split: if_splits sum.splits json.splits)

lemma load_returns: "\<exists>cache out. load_completion_cache fs output_dir = (Return cache, out)"
  by (simp add: load_completion_cache_def Let_def split: sum.splits json.splits)

section \<open>Facts about the effects of a run\<close>

lemma writes_append: "writes (xs @ ys) = writes xs @ writes ys"
  by (simp add: writes_def)

lemma writes_Nil: "writes [] = []"
  by (simp add: writes_def)

lemma writes_Print: "writes (Print m # xs) = writes xs"
  by (simp add: writes_def)

lemma load_no_writes:
  "load_completion_cache fs output_dir = (r, out) \<Longrightarrow> writes out = [] \<and> (\<exists>cache. r = Return cache)"
  by (auto simp: load_completion_cache_def Let_def writes_Nil writes_Print
      split: if_splits sum.splits json.splits)

lemma scan_loop_writes:
  "scan_loop fs output_dir subdirs completed found out = (completed', found', out') \<Longrightarrow>
     writes out' = writes out"
proof (induction subdirs arbitrary: completed found out)
  case Nil
  then show ?case by simp
next
  case (Cons entry subdirs)
  show ?case
  proof (cases "glob fs (os_path_join (os_path_join output_dir (entry_name entry)) ''*.done.txt'')")
    case Nil
    with Cons.prems have "scan_loop fs output_dir subdirs completed found out = (completed', found', out')"
      by simp
    then show ?thesis by (rule Cons.IH)
  next
    case (Cons done_file rest)
    with Cons.prems
    have "scan_loop fs output_dir subdirs (dict_set (entry_name entry) (JBool True) completed)
        (found + 1) (out @ [Print (Found (entry_name entry) (os_path_basename done_file))])
          = (completed', found', out')"
      by (simp add: Let_def)
    from Cons.IH [OF this] show ?thesis
      by (simp add: writes_append writes_Print writes_Nil)
  qed
qed

lemma find_no_writes:
  "find_completed_jobs fs output_dir = (r, out) \<Longrightarrow> writes out = []"
  by (auto simp: find_completed_jobs_def Let_def writes_append writes_Print writes_Nil
      split: if_splits sum.splits prod.splits dest!: scan_loop_writes)

lemma find_fails:
  "\<not> path_exists fs output_dir \<or> (\<exists>e. scandir fs output_dir = Inl e) \<Longrightarrow>
     \<exists>out. find_completed_jobs fs output_dir = (Exit 1, out)"
  by (auto simp: find_completed_jobs_def)

lemma save_writes_once:
  "\<exists>ev. is_write ev \<and> writes (snd (save_completion_cache fs output_dir cache)) = [ev]"
  by (cases "dump_error fs (cache_file_of output_dir)")
     (simp_all add: save_completion_cache_def writes_def Let_def)

lemma main_writes:
  assumes argc: "length argv = 2"
    and load: "load_completion_cache fs (argv ! 1) = (Return existing, out1)"
    and scan: "find_completed_jobs fs (argv ! 1) = (Return completed, out2)"
  shows "writes (snd (main fs argv)) =
     (if existing = [] \<and> completed = [] then []
      else writes (snd (save_completion_cache fs (argv ! 1) (fst (merge_caches existing completed)))))"
proof -
  have w1: "writes out1 = []" using load_no_writes [OF load] by simp
  have w2: "writes out2 = []" using find_no_writes [OF scan] .
  show ?thesis
  proof (cases "completed = []")
    case True
    then show ?thesis
      using argc load scan w1 w2
      by (simp add: main_def Let_def writes_append writes_Print writes_Nil merge_caches_Nil
          split: prod.splits result.splits)
  next
    case False
    then show ?thesis
      using argc load scan w1 w2
      by (simp add: main_def Let_def writes_append writes_Print writes_Nil
          split: prod.splits result.splits)
  qed
qed

lemma main_exit_status:
  assumes argc: "length argv = 2"
    and scan: "find_completed_jobs fs (argv ! 1) = (Return completed, out2)"
    and ok: "dump_error fs (cache_file_of (argv ! 1)) = None"
  shows "fst (main fs argv) = 0"
proof -
  obtain existing out1 where load: "load_completion_cache fs (argv ! 1) = (Return existing, out1)"
    using load_returns by blast
  have save: "save_completion_cache fs (argv ! 1) c
      = (Return (), [Write (cache_file_of (argv ! 1)) (json_dump c),
                     Print (Cache_saved_to (cache_file_of (argv ! 1)))])" for c
    using ok by (simp add: save_completion_cache_def Let_def)
  show ?thesis
    using argc load scan
    by (simp add: main_def Let_def save del: One_nat_def split: prod.splits)
qed

section \<open>Facts about the written text\<close>

lemma sorted_keys_distinct: "distinct (map fst (sort_key fst c)) = distinct (map fst c)"
proof -
  have "mset (map fst (sort_key fst c)) = mset (map fst c)" by simp
  then show ?thesis by (rule mset_eq_imp_distinct_iff)
qed

lemma sort_key_Nil_iff: "(sort_key f xs = []) = (xs = [])"
  by (metis length_0_conv length_sort)

lemma sorted_items_unique:
  assumes d1: "is_dict c1" and d2: "is_dict c2" and same: "\<forall>k. dict_get c1 k = dict_get c2 k"
  shows "sort_key fst c1 = sort_key fst c2"
proof (rule map_sorted_distinct_set_unique [where f = fst])
  have items: "set c1 = set c2" using assms by (rule same_content_same_items)
  have "inj_on fst (set c1)"
    using d1 by (simp add: is_dict_def distinct_map)
  then show "inj_on fst (set (sort_key fst c1) \<union> set (sort_key fst c2))"
    using items by simp
  show "sorted (map fst (sort_key fst c1))" and "sorted (map fst (sort_key fst c2))"
    by (rule sorted_sort_key)+
  show "distinct (map fst (sort_key fst c1))" and "distinct (map fst (sort_key fst c2))"
    using d1 d2 by (simp_all add: is_dict_def sorted_keys_distinct)
  show "set (sort_key fst c1) = set (sort_key fst c2)"
    using items by simp
qed

lemma json_dump_sorted: "json_dump c = json_dump (sort_key fst c)"
  by (simp add: json_dump_def sort_key_id_if_sorted sorted_sort_key sort_key_Nil_iff)

lemma json_dump_same:
  "is_dict c1 \<Longrightarrow> is_dict c2 \<Longrightarrow> \<forall>k. dict_get c1 k = dict_get c2 k \<Longrightarrow> json_dump c1 = json_dump c2"
  using json_dump_sorted [of c1] json_dump_sorted [of c2] sorted_items_unique [of c1 c2]
  by simp

section \<open>The example runs, evaluated\<close>

lemma cache_file_of_out: "cache_file_of ''out'' = ''out/.completion_cache.json''"
  by (simp add: cache_file_of_def os_path_join_def startswith_def endswith_def slash_def)

lemma argv_out_facts: "length argv_out = 2" "argv_out ! 1 = ''out''"
  by (simp_all add: argv_out_def)

lemma load_fs_paths:
  "load_completion_cache fs_paths ''out''
     = (Return [(''jobA'', JBool True), ([], JInt 7)], [])"
  by (simp add: load_completion_cache_def cache_file_of_out fs_paths_def
      os_path_basename_def str_replace_def slash_def backslash_def)

lemma load_scenario_B:
  "load_completion_cache fs_scenario_B ''out'' = (Return [(''jobA'', JBool True)], [])"
  by (simp add: load_completion_cache_def cache_file_of_out fs_scenario_B_def
      os_path_basename_def str_replace_def slash_def backslash_def)

lemma find_scenario_B:
  "find_completed_jobs fs_scenario_B ''out''
     = (Return [], [Print (Scanning_job_directories 0), Print (Found_completed_jobs 0)])"
  by (simp add: find_completed_jobs_def fs_scenario_B_def)

lemma load_absent: "load_completion_cache fs_absent ''out'' = (Return [], [])"
  by (simp add: load_completion_cache_def cache_file_of_out fs_absent_def)

lemma find_absent:
  "find_completed_jobs fs_absent ''out''
     = (Return [], [Print (Scanning_job_directories 0), Print (Found_completed_jobs 0)])"
  by (simp add: find_completed_jobs_def fs_absent_def)

lemma json_dump_two_jobs:
  "json_dump [(''jobA'', JBool True), (''jobB'', JBool True)]
     = ''{'' @ [CHR 0x0A] @ ''  '' @ [dquote] @ ''jobA'' @ [dquote] @ '': true,'' @ [CHR 0x0A]
         @ ''  '' @ [dquote] @ ''jobB'' @ [dquote] @ '': true'' @ [CHR 0x0A] @ ''}''"
  by code_simp

section \<open>The properties of the specification\<close>

text \<open>
  C1. The keys of the merged cache are the keys of the existing cache together with the
  discovered identifiers, and every key of the existing cache keeps the value it had:
  the scan's value is stored only under keys that were absent.
\<close>

theorem merge_caches_union:
  "merge_caches E D = (M, a, p) \<Longrightarrow>
     keys M = keys E \<union> keys D \<and>
     (\<forall>k v. dict_get E k = Some v \<longrightarrow> dict_get M k = Some v) \<and>
     (\<forall>k. k \<notin> keys E \<longrightarrow> dict_get M k = dict_get D k)"
proof -
  assume "merge_caches E D = (M, a, p)"
  then have run: "merge_loop E 0 0 D = (M, a, p)"
    by (simp add: merge_caches_def)
  have "keys M = keys E \<union> keys D"
    using run by (rule merge_loop_keys)
  moreover have "dict_get M k = Some v" if "dict_get E k = Some v" for k v
    using run that by (rule merge_loop_keeps)
  moreover have "dict_get M k = dict_get D k" if "k \<notin> keys E" for k
    using run that by (rule merge_loop_new)
  ultimately show ?thesis by blast
qed

theorem merge_caches_union_witness:
  "merge_caches [(''jobA'', False)] [(''jobA'', True), (''jobC'', True)]
     = ([(''jobA'', False), (''jobC'', True)], 1, 1) \<and>
   keys [(''jobA'', False), (''jobC'', True)]
     = keys [(''jobA'', False)] \<union> keys [(''jobA'', True), (''jobC'', True)] \<and>
   dict_get [(''jobA'', False), (''jobC'', True)] ''jobA'' = Some False \<and>
   dict_get [(''jobA'', False), (''jobC'', True)] ''jobC'' = Some True"
proof -
  have run: "merge_caches [(''jobA'', False)] [(''jobA'', True), (''jobC'', True)]
      = ([(''jobA'', False), (''jobC'', True)], 1, 1)"
    by (simp add: merge_caches_def)
  from merge_caches_union [OF run] run show ?thesis
    by (simp add: keys_def)
qed

text \<open>
  C2. \<open>load_completion_cache\<close> always returns, and no key of the cache it returns
  contains a slash or a backslash. When the file holds an object, every raw key with a
  separator is absent from the result as it stands and present as its normalized form,
  which is the text after its last separator.
\<close>

theorem load_keys_normalized:
  "(\<exists>cache out. load_completion_cache fs output_dir = (Return cache, out)) \<and>
   (\<forall>cache out. load_completion_cache fs output_dir = (Return cache, out) \<longrightarrow>
      (\<forall>k \<in> keys cache. \<not> has_separator k) \<and>
      (\<forall>raw. path_exists fs (cache_file_of output_dir) \<and>
             load_json fs (cache_file_of output_dir) = Inr (JDict raw) \<longrightarrow>
         (\<forall>k \<in> keys raw. has_separator k \<longrightarrow>
            k \<notin> keys cache \<and> normalize_key k \<in> keys cache \<and>
            (\<forall>a c b. k = a @ c # b \<and> (c = slash \<or> c = backslash) \<and> \<not> has_separator b
               \<longrightarrow> normalize_key k = b))))"
proof (intro conjI allI impI ballI)
  show "\<exists>cache out. load_completion_cache fs output_dir = (Return cache, out)"
    by (rule load_returns)
next
  fix cache out k
  assume "load_completion_cache fs output_dir = (Return cache, out)" and "k \<in> keys cache"
  then show "\<not> has_separator k" using load_keys_clean by blast
next
  fix cache out raw k
  assume run: "load_completion_cache fs output_dir = (Return cache, out)"
    and present: "path_exists fs (cache_file_of output_dir) \<and>
      load_json fs (cache_file_of output_dir) = Inr (JDict raw)"
    and k: "k \<in> keys raw" and sep: "has_separator k"
  from present run have cache: "cache = normalize_loop [] raw"
    by (simp add: load_dict)
  show "k \<notin> keys cache"
    using run sep load_keys_clean by blast
  show "normalize_key k \<in> keys cache"
    using k by (simp add: cache normalize_loop_keys)
next
  fix cache out raw k a c b
  assume "k = a @ c # b \<and> (c = slash \<or> c = backslash) \<and> \<not> has_separator b"
  then show "normalize_key k = b"
    by (simp add: normalize_key_after_separator)
qed

theorem load_keys_normalized_witness:
  "load_completion_cache fs_paths ''out'' = (Return [(''jobA'', JBool True), ([], JInt 7)], []) \<and>
   has_separator ''/old/path/jobA'' \<and>
   ''/old/path/jobA'' \<notin> keys [(''jobA'', JBool True), ([], JInt 7)] \<and>
   normalize_key ''/old/path/jobA'' = ''jobA'' \<and>
   ''jobA'' \<in> keys [(''jobA'', JBool True), ([], JInt 7)] \<and>
   \<not> has_separator ''jobA''"
proof -
  let ?raw = "[(''/old/path/jobA'', JBool False),
          ([CHR ''C'', CHR '':'', backslash, CHR ''r'', backslash] @ ''jobA'', JBool True),
          (''runs/jobB/'', JInt 7)]"
  let ?cache = "[(''jobA'', JBool True), ([], JInt 7)]"
  have run: "load_completion_cache fs_paths ''out'' = (Return ?cache, [])"
    by (rule load_fs_paths)
  have present: "path_exists fs_paths (cache_file_of ''out'') \<and>
      load_json fs_paths (cache_file_of ''out'') = Inr (JDict ?raw)"
    by (simp add: fs_paths_def cache_file_of_out)
  have k: "''/old/path/jobA'' \<in> keys ?raw"
    by (simp add: keys_Cons)
  have sep: "has_separator ''/old/path/jobA''"
    by (simp add: has_separator_def slash_def)
  have split: "''/old/path/jobA'' = ''/old/path'' @ slash # ''jobA'' \<and> (slash = slash \<or> slash = backslash)
      \<and> \<not> has_separator ''jobA''"
    by (simp add: has_separator_def slash_def backslash_def)
  have clean: "\<forall>k \<in> keys ?cache. \<not> has_separator k"
    and inst: "''/old/path/jobA'' \<notin> keys ?cache \<and> normalize_key ''/old/path/jobA'' \<in> keys ?cache
      \<and> normalize_key ''/old/path/jobA'' = ''jobA''"
    using load_keys_normalized [of fs_paths "''out''"] run present k sep split by blast+
  from inst clean run sep show ?thesis by auto
qed

text \<open>
  C3. Merging the same discovered entries into the cache that a first merge returned
  changes nothing: the cache comes back as it is, nothing is added, and every
  discovered entry is counted as already present.
\<close>

theorem merge_caches_idempotent:
  "merge_caches E D = (M, a, p) \<Longrightarrow> merge_caches M D = (M, 0, int (length D))"
proof -
  assume "merge_caches E D = (M, a, p)"
  then have "keys M = keys E \<union> keys D"
    unfolding merge_caches_def by (rule merge_loop_keys)
  then have "keys D \<subseteq> keys M" by blast
  from merge_loop_present [OF this, of 0 0] show ?thesis
    by (simp add: merge_caches_def)
qed

theorem merge_caches_idempotent_witness:
  "merge_caches [(''jobA'', True)] [(''jobA'', True), (''jobC'', True)]
     = ([(''jobA'', True), (''jobC'', True)], 1, 1) \<and>
   merge_caches [(''jobA'', True), (''jobC'', True)] [(''jobA'', True), (''jobC'', True)]
     = ([(''jobA'', True), (''jobC'', True)], 0, 2)"
proof -
  have run: "merge_caches [(''jobA'', True)] [(''jobA'', True), (''jobC'', True)]
      = ([(''jobA'', True), (''jobC'', True)], 1, 1)"
    by (simp add: merge_caches_def)
  from merge_caches_idempotent [OF run] run show ?thesis by simp
qed

text \<open>
  C4. The two counters of a merge add up to the number of discovered entries; as the
  discovered entries are a dictionary, that is the number of distinct discovered
  identifiers.
\<close>

theorem merge_caches_count:
  "merge_caches E D = (M, a, p) \<Longrightarrow>
     a + p = int (length D) \<and> (is_dict D \<longrightarrow> a + p = int (card (keys D)))"
proof -
  assume "merge_caches E D = (M, a, p)"
  then have "a + p = 0 + 0 + int (length D)"
    unfolding merge_caches_def by (rule merge_loop_count)
  then show ?thesis by (simp add: is_dict_card_keys)
qed

theorem merge_caches_count_witness:
  "merge_caches [(''jobA'', True)] [(''jobA'', True), (''jobC'', True)]
     = ([(''jobA'', True), (''jobC'', True)], 1, 1) \<and>
   is_dict [(''jobA'', True), (''jobC'', True)] \<and>
   (1::int) + 1 = int (card (keys [(''jobA'', True), (''jobC'', True)]))"
proof -
  have run: "merge_caches [(''jobA'', True)] [(''jobA'', True), (''jobC'', True)]
      = ([(''jobA'', True), (''jobC'', True)], 1, 1)"
    by (simp add: merge_caches_def)
  have d: "is_dict [(''jobA'', True), (''jobC'', True)]"
    by (simp add: is_dict_def)
  from merge_caches_count [OF run] run d show ?thesis by simp
qed

text \<open>
  C5. When two raw keys normalize to the same basename, the loaded cache maps that
  basename to the value of the one that comes last in the raw mapping among all keys
  normalizing to it, and no warning is printed.
\<close>

theorem load_last_write_wins:
  "path_exists fs (cache_file_of output_dir) \<Longrightarrow>
   load_json fs (cache_file_of output_dir) = Inr (JDict (pre @ (k1, v1) # mid @ (k2, v2) # post)) \<Longrightarrow>
   normalize_key k1 = normalize_key k2 \<Longrightarrow>
   normalize_key k2 \<notin> normalize_key ` keys post \<Longrightarrow>
   \<exists>cache. load_completion_cache fs output_dir = (Return cache, []) \<and>
           dict_get cache (normalize_key k2) = Some v2"
proof -
  assume present: "path_exists fs (cache_file_of output_dir)"
    and raw: "load_json fs (cache_file_of output_dir) = Inr (JDict (pre @ (k1, v1) # mid @ (k2, v2) # post))"
    and last: "normalize_key k2 \<notin> normalize_key ` keys post"
  let ?raw = "pre @ (k1, v1) # mid @ (k2, v2) # post"
  have "dict_get (normalize_loop [] ((pre @ (k1, v1) # mid) @ (k2, v2) # post)) (normalize_key k2) = Some v2"
    using last by (rule normalize_loop_last)
  then have "dict_get (normalize_loop [] ?raw) (normalize_key k2) = Some v2" by simp
  moreover have "load_completion_cache fs output_dir = (Return (normalize_loop [] ?raw), [])"
    using present raw by (rule load_dict)
  ultimately show ?thesis by blast
qed

theorem load_last_write_wins_witness:
  "normalize_key ''/old/path/jobA'' = normalize_key ([CHR ''C'', CHR '':'', backslash, CHR ''r'', backslash] @ ''jobA'') \<and>
   load_completion_cache fs_paths ''out'' = (Return [(''jobA'', JBool True), ([], JInt 7)], []) \<and>
   dict_get [(''jobA'', JBool True), ([], JInt 7)] ''jobA'' = Some (JBool True)"
proof -
  let ?k2 = "[CHR ''C'', CHR '':'', backslash, CHR ''r'', backslash] @ ''jobA''"
  have n1: "normalize_key ''/old/path/jobA'' = ''jobA''"
    by (simp add: normalize_key_def os_path_basename_def str_replace_def slash_def backslash_def)
  have n2: "normalize_key ?k2 = ''jobA''"
    by (simp add: normalize_key_def os_path_basename_def str_replace_def slash_def backslash_def)
  have n3: "normalize_key ''runs/jobB/'' = []"
    by (simp add: normalize_key_def os_path_basename_def str_replace_def slash_def backslash_def)
  have present: "path_exists fs_paths (cache_file_of ''out'')"
    by (simp add: fs_paths_def cache_file_of_out)
  have raw: "load_json fs_paths (cache_file_of ''out'')
      = Inr (JDict ([] @ (''/old/path/jobA'', JBool False) # [] @ (?k2, JBool True) # [(''runs/jobB/'', JInt 7)]))"
    by (simp add: fs_paths_def)
  have same: "normalize_key ''/old/path/jobA'' = normalize_key ?k2"
    using n1 n2 by simp
  have last: "normalize_key ?k2 \<notin> normalize_key ` keys [(''runs/jobB/'', JInt 7)]"
    using n2 n3 by (simp add: keys_Cons keys_Nil)
  from load_last_write_wins [OF present raw same last] same n2 show ?thesis
    by (simp add: load_fs_paths)
qed

text \<open>
  C6. Without a cache file \<open>load_completion_cache\<close> returns the empty cache and prints
  nothing. With a cache file that cannot be opened or parsed, or that holds JSON other
  than an object, it prints one warning and returns the empty cache. In each case it
  returns: it does not leave through \<open>sys.exit\<close>.
\<close>

theorem load_degrades_gracefully:
  "(\<not> path_exists fs (cache_file_of output_dir) \<longrightarrow>
      load_completion_cache fs output_dir = (Return [], [])) \<and>
   (path_exists fs (cache_file_of output_dir) \<and> load_json fs (cache_file_of output_dir) = Inl e \<longrightarrow>
      load_completion_cache fs output_dir = (Return [], [Print (Warning_could_not_load e)])) \<and>
   (path_exists fs (cache_file_of output_dir) \<and> load_json fs (cache_file_of output_dir) = Inr v \<and>
      (\<forall>raw. v \<noteq> JDict raw) \<longrightarrow>
      load_completion_cache fs output_dir
        = (Return [], [Print (Warning_could_not_load (no_items_error v))]))"
  by (cases v) (simp_all add: load_completion_cache_def)

theorem load_degrades_gracefully_witness:
  "\<not> path_exists fs_absent (cache_file_of ''out'') \<and>
   load_completion_cache fs_absent ''out'' = (Return [], []) \<and>
   path_exists fs_corrupt (cache_file_of ''out'') \<and>
   load_json fs_corrupt (cache_file_of ''out'') = Inl ''Expecting value: line 1 column 1 (char 0)'' \<and>
   load_completion_cache fs_corrupt ''out''
     = (Return [], [Print (Warning_could_not_load ''Expecting value: line 1 column 1 (char 0)'')])"
proof -
  have absent: "\<not> path_exists fs_absent (cache_file_of ''out'')"
    by (simp add: fs_absent_def cache_file_of_out)
  have corrupt: "path_exists fs_corrupt (cache_file_of ''out'') \<and>
      load_json fs_corrupt (cache_file_of ''out'') = Inl ''Expecting value: line 1 column 1 (char 0)''"
    by (simp add: fs_corrupt_def cache_file_of_out)
  from load_degrades_gracefully [of fs_absent "''out''"] absent
  have a: "load_completion_cache fs_absent ''out'' = (Return [], [])" by blast
  from load_degrades_gracefully [of fs_corrupt "''out''" "''Expecting value: line 1 column 1 (char 0)''"] corrupt
  have c: "load_completion_cache fs_corrupt ''out''
     = (Return [], [Print (Warning_could_not_load ''Expecting value: line 1 column 1 (char 0)'')])"
    by blast
  from absent corrupt a c show ?thesis by blast
qed

text \<open>
  C7. In a run with one argument whose scan returns, \<open>save_completion_cache\<close> is
  called (the run has a write event) exactly when the normalized cache or the set of
  discovered jobs is not empty; the cache written is then the merge of the two, which
  is the normalized cache itself when nothing was discovered. When the write does not
  fail, the exit status is 0.
\<close>

theorem main_saves_iff:
  "length argv = 2 \<Longrightarrow>
   load_completion_cache fs (argv ! 1) = (Return existing, out1) \<Longrightarrow>
   find_completed_jobs fs (argv ! 1) = (Return completed, out2) \<Longrightarrow>
     (writes (snd (main fs argv)) \<noteq> []) = (existing \<noteq> [] \<or> completed \<noteq> []) \<and>
     (existing \<noteq> [] \<or> completed \<noteq> [] \<longrightarrow>
        writes (snd (main fs argv))
          = writes (snd (save_completion_cache fs (argv ! 1) (fst (merge_caches existing completed))))) \<and>
     (dump_error fs (cache_file_of (argv ! 1)) = None \<longrightarrow> fst (main fs argv) = 0)"
proof -
  assume argc: "length argv = 2"
    and load: "load_completion_cache fs (argv ! 1) = (Return existing, out1)"
    and scan: "find_completed_jobs fs (argv ! 1) = (Return completed, out2)"
  note w = main_writes [OF argc load scan]
  obtain ev where "writes (snd (save_completion_cache fs (argv ! 1) (fst (merge_caches existing completed)))) = [ev]"
    using save_writes_once by blast
  with w have "(writes (snd (main fs argv)) \<noteq> []) = (existing \<noteq> [] \<or> completed \<noteq> [])"
    by simp
  moreover from w have "existing \<noteq> [] \<or> completed \<noteq> [] \<longrightarrow>
        writes (snd (main fs argv))
          = writes (snd (save_completion_cache fs (argv ! 1) (fst (merge_caches existing completed))))"
    by auto
  moreover have "dump_error fs (cache_file_of (argv ! 1)) = None \<longrightarrow> fst (main fs argv) = 0"
    using main_exit_status [OF argc scan] by blast
  ultimately show ?thesis by blast
qed

theorem main_saves_iff_witness:
  "length argv_out = 2 \<and>
   load_completion_cache fs_scenario_B (argv_out ! 1) = (Return [(''jobA'', JBool True)], []) \<and>
   find_completed_jobs fs_scenario_B (argv_out ! 1)
     = (Return [], [Print (Scanning_job_directories 0), Print (Found_completed_jobs 0)]) \<and>
   merge_caches [(''jobA'', JBool True)] [] = ([(''jobA'', JBool True)], 0, 0) \<and>
   writes (snd (main fs_scenario_B argv_out))
     = [Write ''out/.completion_cache.json'' (json_dump [(''jobA'', JBool True)])] \<and>
   fst (main fs_scenario_B argv_out) = 0 \<and>
   load_completion_cache fs_absent (argv_out ! 1) = (Return [], []) \<and>
   find_completed_jobs fs_absent (argv_out ! 1)
     = (Return [], [Print (Scanning_job_directories 0), Print (Found_completed_jobs 0)]) \<and>
   writes (snd (main fs_absent argv_out)) = [] \<and>
   fst (main fs_absent argv_out) = 0"
proof -
  have argc: "length argv_out = 2" by (rule argv_out_facts)
  have loadB: "load_completion_cache fs_scenario_B (argv_out ! 1) = (Return [(''jobA'', JBool True)], [])"
    by (simp only: argv_out_facts load_scenario_B)
  have scanB: "find_completed_jobs fs_scenario_B (argv_out ! 1)
     = (Return [], [Print (Scanning_job_directories 0), Print (Found_completed_jobs 0)])"
    by (simp only: argv_out_facts find_scenario_B)
  have loadE: "load_completion_cache fs_absent (argv_out ! 1) = (Return [], [])"
    by (simp only: argv_out_facts load_absent)
  have scanE: "find_completed_jobs fs_absent (argv_out ! 1)
     = (Return [], [Print (Scanning_job_directories 0), Print (Found_completed_jobs 0)])"
    by (simp only: argv_out_facts find_absent)
  have okB: "dump_error fs_scenario_B (cache_file_of (argv_out ! 1)) = None"
    by (simp add: fs_scenario_B_def)
  have okE: "dump_error fs_absent (cache_file_of (argv_out ! 1)) = None"
    by (simp add: fs_absent_def)
  have m: "merge_caches [(''jobA'', JBool True)] [] = ([(''jobA'', JBool True)], 0, 0)"
    by (simp add: merge_caches_def)
  have saveB: "writes (snd (save_completion_cache fs_scenario_B (argv_out ! 1) [(''jobA'', JBool True)]))
      = [Write ''out/.completion_cache.json'' (json_dump [(''jobA'', JBool True)])]"
    by (simp add: save_completion_cache_def argv_out_def cache_file_of_out fs_scenario_B_def
        writes_def Let_def)
  from main_saves_iff [OF argc loadB scanB] m saveB okB
  have B: "writes (snd (main fs_scenario_B argv_out))
     = [Write ''out/.completion_cache.json'' (json_dump [(''jobA'', JBool True)])] \<and>
     fst (main fs_scenario_B argv_out) = 0"
    by simp
  from main_saves_iff [OF argc loadE scanE] okE
  have E: "writes (snd (main fs_absent argv_out)) = [] \<and> fst (main fs_absent argv_out) = 0"
    by simp
  from argc loadB scanB m B loadE scanE E show ?thesis by blast
qed

text \<open>
  C8. When the output directory does not exist or listing it raises, the scan leaves
  through \<open>sys.exit(1)\<close>: the exit status of the run is 1 and the run has no write
  event.
\<close>

theorem main_scan_failure:
  "length argv = 2 \<Longrightarrow>
   \<not> path_exists fs (argv ! 1) \<or> (\<exists>e. scandir fs (argv ! 1) = Inl e) \<Longrightarrow>
     (\<exists>out. find_completed_jobs fs (argv ! 1) = (Exit 1, out)) \<and>
     fst (main fs argv) = 1 \<and> writes (snd (main fs argv)) = []"
proof -
  assume argc: "length argv = 2"
    and bad: "\<not> path_exists fs (argv ! 1) \<or> (\<exists>e. scandir fs (argv ! 1) = Inl e)"
  obtain existing out1 where load: "load_completion_cache fs (argv ! 1) = (Return existing, out1)"
    using load_returns by blast
  have w1: "writes out1 = []" using load_no_writes [OF load] by simp
  obtain out2 where scan: "find_completed_jobs fs (argv ! 1) = (Exit 1, out2)"
    using find_fails [OF bad] by blast
  have w2: "writes out2 = []" using find_no_writes [OF scan] .
  have "fst (main fs argv) = 1"
    using argc load scan by (simp add: main_def Let_def)
  moreover have "writes (snd (main fs argv)) = []"
    using argc load scan w1 w2
    by (simp add: main_def Let_def writes_append writes_Print writes_Nil)
  ultimately show ?thesis using scan by blast
qed

theorem main_scan_failure_witness:
  "length argv_out = 2 \<and> \<not> path_exists fs_scenario_D (argv_out ! 1) \<and>
   find_completed_jobs fs_scenario_D (argv_out ! 1)
     = (Exit 1, [Print (Error_output_directory_does_not_exist ''out'')]) \<and>
   fst (main fs_scenario_D argv_out) = 1 \<and> writes (snd (main fs_scenario_D argv_out)) = [] \<and>
   scandir fs_unlistable (argv_out ! 1) = Inl ''Permission denied'' \<and>
   find_completed_jobs fs_unlistable (argv_out ! 1)
     = (Exit 1, [Print (Error_scanning_output_directory ''Permission denied'')]) \<and>
   fst (main fs_unlistable argv_out) = 1 \<and> writes (snd (main fs_unlistable argv_out)) = []"
proof -
  have argc: "length argv_out = 2" by (rule argv_out_facts)
  have missing: "\<not> path_exists fs_scenario_D (argv_out ! 1)"
    by (simp add: fs_scenario_D_def)
  have denied: "scandir fs_unlistable (argv_out ! 1) = Inl ''Permission denied''"
    by (simp add: fs_unlistable_def)
  have findD: "find_completed_jobs fs_scenario_D (argv_out ! 1)
     = (Exit 1, [Print (Error_output_directory_does_not_exist ''out'')])"
    by (simp add: find_completed_jobs_def fs_scenario_D_def argv_out_def)
  have findU: "find_completed_jobs fs_unlistable (argv_out ! 1)
     = (Exit 1, [Print (Error_scanning_output_directory ''Permission denied'')])"
    by (simp add: find_completed_jobs_def fs_unlistable_def argv_out_def)
  from missing have "\<not> path_exists fs_scenario_D (argv_out ! 1)
      \<or> (\<exists>e. scandir fs_scenario_D (argv_out ! 1) = Inl e)" by blast
  from main_scan_failure [OF argc this]
  have D: "fst (main fs_scenario_D argv_out) = 1 \<and> writes (snd (main fs_scenario_D argv_out)) = []"
    by blast
  from denied have "\<not> path_exists fs_unlistable (argv_out ! 1)
      \<or> (\<exists>e. scandir fs_unlistable (argv_out ! 1) = Inl e)" by blast
  from main_scan_failure [OF argc this]
  have U: "fst (main fs_unlistable argv_out) = 1 \<and> writes (snd (main fs_unlistable argv_out)) = []"
    by blast
  from argc missing denied findD findU D U show ?thesis by blast
qed

text \<open>
  C9. Two dictionaries with the same keys and the same value under each key are saved
  identically, whatever the order of their items: the text written lists the items by
  increasing key. When opening or writing the file raises, the call leaves through
  \<open>sys.exit(1)\<close>.
\<close>

theorem save_deterministic:
  "is_dict c1 \<Longrightarrow> is_dict c2 \<Longrightarrow> \<forall>k. dict_get c1 k = dict_get c2 k \<Longrightarrow>
     save_completion_cache fs output_dir c1 = save_completion_cache fs output_dir c2 \<and>
     json_dump c1 = json_dump c2 \<and>
     sorted (map fst (sort_key fst c1)) \<and>
     (c1 \<noteq> [] \<longrightarrow>
        json_dump c1 =
          ''{'' @ newline_indent 1
            @ join (CHR '','' # newline_indent 1)
                (map (\<lambda>(key, value). encode_basestring_ascii key @ '': '' @ encode 1 value)
                   (sort_key fst c1))
            @ newline_indent 0 @ ''}'') \<and>
     (dump_error fs (cache_file_of output_dir) = None \<longrightarrow>
        save_completion_cache fs output_dir c1
          = (Return (), [Write (cache_file_of output_dir) (json_dump c1),
                         Print (Cache_saved_to (cache_file_of output_dir))])) \<and>
     (\<forall>e. dump_error fs (cache_file_of output_dir) = Some e \<longrightarrow>
        save_completion_cache fs output_dir c1
          = (Exit 1, [Write_failed (cache_file_of output_dir), Print (Error_saving_cache e)]))"
proof -
  assume d1: "is_dict c1" and d2: "is_dict c2" and same: "\<forall>k. dict_get c1 k = dict_get c2 k"
  have bytes: "json_dump c1 = json_dump c2" using d1 d2 same by (rule json_dump_same)
  have "save_completion_cache fs output_dir c1 = save_completion_cache fs output_dir c2"
    by (simp only: save_completion_cache_def bytes)
  moreover have "sorted (map fst (sort_key fst c1))" by (rule sorted_sort_key)
  moreover have "c1 \<noteq> [] \<longrightarrow>
        json_dump c1 =
          ''{'' @ newline_indent 1
            @ join (CHR '','' # newline_indent 1)
                (map (\<lambda>(key, value). encode_basestring_ascii key @ '': '' @ encode 1 value)
                   (sort_key fst c1))
            @ newline_indent 0 @ ''}''"
    by (simp add: json_dump_def)
  moreover have "dump_error fs (cache_file_of output_dir) = None \<longrightarrow>
        save_completion_cache fs output_dir c1
          = (Return (), [Write (cache_file_of output_dir) (json_dump c1),
                         Print (Cache_saved_to (cache_file_of output_dir))])"
    by (simp add: save_completion_cache_def Let_def)
  moreover have "\<forall>e. dump_error fs (cache_file_of output_dir) = Some e \<longrightarrow>
        save_completion_cache fs output_dir c1
          = (Exit 1, [Write_failed (cache_file_of output_dir), Print (Error_saving_cache e)])"
    by (simp add: save_completion_cache_def Let_def)
  ultimately show ?thesis using bytes by blast
qed

theorem save_deterministic_witness:
  "is_dict [(''jobB'', JBool True), (''jobA'', JBool True)] \<and>
   is_dict [(''jobA'', JBool True), (''jobB'', JBool True)] \<and>
   (\<forall>k. dict_get [(''jobB'', JBool True), (''jobA'', JBool True)] k
        = dict_get [(''jobA'', JBool True), (''jobB'', JBool True)] k) \<and>
   json_dump [(''jobB'', JBool True), (''jobA'', JBool True)]
     = ''{'' @ [CHR 0x0A] @ ''  '' @ [dquote] @ ''jobA'' @ [dquote] @ '': true,'' @ [CHR 0x0A]
         @ ''  '' @ [dquote] @ ''jobB'' @ [dquote] @ '': true'' @ [CHR 0x0A] @ ''}'' \<and>
   save_completion_cache fs_absent ''out'' [(''jobB'', JBool True), (''jobA'', JBool True)]
     = save_completion_cache fs_absent ''out'' [(''jobA'', JBool True), (''jobB'', JBool True)] \<and>
   dump_error fs_scenario_D (cache_file_of ''out'') = Some ''No such file or directory'' \<and>
   save_completion_cache fs_scenario_D ''out'' [(''jobB'', JBool True), (''jobA'', JBool True)]
     = (Exit 1, [Write_failed (cache_file_of ''out''),
                 Print (Error_saving_cache ''No such file or directory'')])"
proof -
  let ?c1 = "[(''jobB'', JBool True), (''jobA'', JBool True)]"
  let ?c2 = "[(''jobA'', JBool True), (''jobB'', JBool True)]"
  have d1: "is_dict ?c1" and d2: "is_dict ?c2"
    by (simp_all add: is_dict_def)
  have same: "\<forall>k. dict_get ?c1 k = dict_get ?c2 k"
    by auto
  have err: "dump_error fs_scenario_D (cache_file_of ''out'') = Some ''No such file or directory''"
    by (simp add: fs_scenario_D_def)
  note det = save_deterministic [OF d1 d2 same]
  from det [of fs_absent "''out''"]
  have eq: "save_completion_cache fs_absent ''out'' ?c1 = save_completion_cache fs_absent ''out'' ?c2"
    and bytes: "json_dump ?c1 = json_dump ?c2"
    by blast+
  from det [of fs_scenario_D "''out''"] err
  have fail: "save_completion_cache fs_scenario_D ''out'' ?c1
     = (Exit 1, [Write_failed (cache_file_of ''out''),
                 Print (Error_saving_cache ''No such file or directory'')])"
    by blast
  from bytes json_dump_two_jobs
  have written: "json_dump ?c1
     = ''{'' @ [CHR 0x0A] @ ''  '' @ [dquote] @ ''jobA'' @ [dquote] @ '': true,'' @ [CHR 0x0A]
         @ ''  '' @ [dquote] @ ''jobB'' @ [dquote] @ '': true'' @ [CHR 0x0A] @ ''}''"
    by (rule trans)
  from d1 d2 same written eq err fail show ?thesis by blast
qed

text \<open>
  C10. A raw key that ends in a slash or a backslash normalizes to the empty string,
  so the loaded cache has an entry under the empty key.
\<close>

theorem load_trailing_separator:
  "path_exists fs (cache_file_of output_dir) \<Longrightarrow>
   load_json fs (cache_file_of output_dir) = Inr (JDict raw) \<Longrightarrow>
   k \<in> keys raw \<Longrightarrow> k \<noteq> [] \<Longrightarrow> last k = slash \<or> last k = backslash \<Longrightarrow>
   normalize_key k = [] \<and>
   (\<exists>cache. load_completion_cache fs output_dir = (Return cache, []) \<and> [] \<in> keys cache)"
proof -
  assume present: "path_exists fs (cache_file_of output_dir)"
    and raw: "load_json fs (cache_file_of output_dir) = Inr (JDict raw)"
    and k: "k \<in> keys raw" and ne: "k \<noteq> []" and l: "last k = slash \<or> last k = backslash"
  have empty: "normalize_key k = []" using ne l by (rule normalize_key_trailing)
  from k have "normalize_key k \<in> normalize_key ` keys raw" by (rule imageI)
  with empty have "[] \<in> keys (normalize_loop [] raw)"
    by (simp add: normalize_loop_keys)
  moreover have "load_completion_cache fs output_dir = (Return (normalize_loop [] raw), [])"
    using present raw by (rule load_dict)
  ultimately show ?thesis using empty by blast
qed

theorem load_trailing_separator_witness:
  "last ''runs/jobB/'' = slash \<and>
   normalize_key ''runs/jobB/'' = [] \<and>
   load_completion_cache fs_paths ''out'' = (Return [(''jobA'', JBool True), ([], JInt 7)], []) \<and>
   [] \<in> keys [(''jobA'', JBool True), ([], JInt 7)] \<and>
   ''jobB'' \<notin> keys [(''jobA'', JBool True), ([], JInt 7)]"
proof -
  have present: "path_exists fs_paths (cache_file_of ''out'')"
    by (simp add: fs_paths_def cache_file_of_out)
  have raw: "load_json fs_paths (cache_file_of ''out'')
      = Inr (JDict [(''/old/path/jobA'', JBool False),
          ([CHR ''C'', CHR '':'', backslash, CHR ''r'', backslash] @ ''jobA'', JBool True),
          (''runs/jobB/'', JInt 7)])"
    by (simp add: fs_paths_def)
  have k: "''runs/jobB/'' \<in> keys [(''/old/path/jobA'', JBool False),
          ([CHR ''C'', CHR '':'', backslash, CHR ''r'', backslash] @ ''jobA'', JBool True),
          (''runs/jobB/'', JInt 7)]"
    by (simp add: keys_Cons)
  have ne: "''runs/jobB/'' \<noteq> []" by simp
  have l: "last ''runs/jobB/'' = slash \<or> last ''runs/jobB/'' = backslash"
    by (simp add: slash_def)
  from load_trailing_separator [OF present raw k ne l] l show ?thesis
    by (simp add: load_fs_paths keys_Cons keys_Nil slash_def backslash_def)
qed

end
